theory Spec2Isabelle
  imports
    Main
    "HOL-Library.Char_ord"
    "HOL-Library.List_Lexorder"
    "HOL-Library.AList"
    "HOL-Library.Monad_Syntax"
begin

section \<open>Text, truthiness and small string helpers\<close>

text \<open>
  Text is a list of characters. The source works on decoded text, so the codecs (UTF-16,
  UTF-8) and their errors are outside this development; \<open>unicode(x)\<close> and \<open>'%s' % x\<close> on a
  record are its \<open>__str__\<close>. Strings are ordered as Python orders them: character by
  character, a proper prefix first.
\<close>

text \<open>Python's truth value of an optional string: \<open>None\<close> and \<open>''\<close> are false.\<close>

fun truthy :: "string option \<Rightarrow> bool" where
  "truthy None = False"
| "truthy (Some s) = (s \<noteq> [])"

text \<open>\<open>x or ''\<close> for an optional string.\<close>

fun or_empty :: "string option \<Rightarrow> string" where
  "or_empty None = []"
| "or_empty (Some s) = s"

text \<open>A literal at the head of the text: the rest of the text after it, if it is there.\<close>

fun lit :: "string \<Rightarrow> string \<Rightarrow> string option" where
  "lit [] s = Some s"
| "lit (p # ps) [] = None"
| "lit (p # ps) (c # cs) = (if p = c then lit ps cs else None)"

text \<open>\<open>s.find(sub)\<close>: the first index at which \<open>sub\<close> occurs in \<open>s\<close>, or \<open>-1\<close>.\<close>

fun find_str :: "string \<Rightarrow> string \<Rightarrow> int" where
  "find_str [] sub = (if sub = [] then 0 else - 1)"
| "find_str (c # cs) sub =
     (if lit sub (c # cs) \<noteq> None then 0
      else (let i = find_str cs sub in if i < 0 then - 1 else i + 1))"

text \<open>
  \<open>s.strip()\<close> on decoded text removes the leading and trailing white space; below code
  point 256 that is tab, line feed, vertical tab, form feed, carriage return, the four
  separators 0x1C to 0x1F, space, 0x85 and 0xA0.
\<close>

definition is_space :: "char \<Rightarrow> bool" where
  "is_space c \<longleftrightarrow> c \<in> set [CHR 0x09, CHR 0x0A, CHR 0x0B, CHR 0x0C, CHR 0x0D,
     CHR 0x1C, CHR 0x1D, CHR 0x1E, CHR 0x1F, CHR 0x20, CHR 0x85, CHR 0xA0]"

definition strip :: "string \<Rightarrow> string" where
  "strip s = rev (dropWhile is_space (rev (dropWhile is_space s)))"

text \<open>\<open>sep.join(xs)\<close>.\<close>

fun join :: "string \<Rightarrow> string list \<Rightarrow> string" where
  "join sep [] = []"
| "join sep [x] = x"
| "join sep (x # y # ys) = x @ sep @ join sep (y # ys)"

section \<open>Backtracking matcher for the two patterns\<close>

text \<open>
  Python's \<open>re\<close> is a backtracking matcher: a greedy repetition tries its longest
  candidate first and gives characters back one at a time until the rest of the pattern
  matches; the first success in that order is the match. \<open>first_match\<close> runs a
  continuation over the candidates of one choice point in that order.
\<close>

fun first_match :: "('a \<Rightarrow> 'b option) \<Rightarrow> 'a list \<Rightarrow> 'b option" where
  "first_match f [] = None"
| "first_match f (x # xs) = (case f x of Some y \<Rightarrow> Some y | None \<Rightarrow> first_match f xs)"

text \<open>
  \<open>.+\<close>: one or more characters other than a line feed, longest first. Each candidate
  is the captured text with the text left over.
\<close>

definition dot_plus :: "string \<Rightarrow> (string \<times> string) list" where
  "dot_plus s =
     map (\<lambda>n. (take n s, drop n s))
       (rev [1 ..< Suc (length (takeWhile (\<lambda>c. c \<noteq> CHR 0x0A) s))])"

text \<open>\<open>\w\<close> without the UNICODE and LOCALE flags is \<open>[a-zA-Z0-9_]\<close>.\<close>

definition is_word :: "char \<Rightarrow> bool" where
  "is_word c \<longleftrightarrow>
     c \<in> set ''abcdefghijklmnopqrstuvwxyzABCDEFGHIJKLMNOPQRSTUVWXYZ0123456789_''"

text \<open>\<open>\w*\<close>: zero or more word characters, longest first; each candidate is the text left over.\<close>

definition word_star :: "string \<Rightarrow> string list" where
  "word_star s = map (\<lambda>n. drop n s) (rev [0 ..< Suc (length (takeWhile is_word s))])"

text \<open>\<open> ?\<close>: an optional space, taken first if it is there.\<close>

definition opt_space :: "string \<Rightarrow> string list" where
  "opt_space s = (case lit '' '' s of Some r \<Rightarrow> [r, s] | None \<Rightarrow> [s])"

text \<open>\<open>$\<close> without MULTILINE: the end of the text, or just before a line feed that ends it.\<close>

definition at_end :: "string \<Rightarrow> bool" where
  "at_end s \<longleftrightarrow> s = [] \<or> s = [CHR 0x0A]"

text \<open>
  \<open>COMMENT_EXPR\<close> is \<^verbatim>\<open>^\w*/\* (?P<comment>.+) \*/\w*$\<close>; the result of a match is
  the group \<open>comment\<close>.
\<close>

definition comment_close :: "string \<Rightarrow> string \<times> string \<Rightarrow> string option" where
  "comment_close ending = (\<lambda>(c, s). do {
     s' \<leftarrow> lit ending s;
     first_match (\<lambda>r. if at_end r then Some c else None) (word_star s')
   })"

definition COMMENT_EXPR :: "string \<Rightarrow> string option" where
  "COMMENT_EXPR line =
     first_match (\<lambda>s. do {
       s' \<leftarrow> lit ''/* '' s;
       first_match (comment_close '' */'') (dot_plus s')
     }) (word_star line)"

text \<open>
  \<open>LOCALIZED_STRING_EXPR\<close> is
  \<^verbatim>\<open>^"(?P<key>.+)" ?= ?"(?P<value>.+)";(?: /\* (?P<comment>.+) \*/)?$\<close>;
  the result of a match is the three groups, \<open>comment\<close> being \<open>None\<close> when the optional
  group did not take part. The stages below are the pattern from right to left.
\<close>

definition inline_close :: "string \<times> string \<Rightarrow> string option" where
  "inline_close = (\<lambda>(c, s). do {
     s' \<leftarrow> lit '' */'' s;
     if at_end s' then Some c else None
   })"

text \<open>The optional group and \<open>$\<close>: the group is tried first, then the pattern without it.\<close>

definition re_tail :: "string \<Rightarrow> string option option" where
  "re_tail s =
     (case do { s' \<leftarrow> lit '' /* '' s; first_match inline_close (dot_plus s') } of
        Some c \<Rightarrow> Some (Some c)
      | None \<Rightarrow> if at_end s then Some None else None)"

definition re_value_close :: "string \<times> string \<Rightarrow> (string \<times> string option) option" where
  \<open>re_value_close = (\<lambda>(v, s). do {
     s' \<leftarrow> lit ''";'' s;
     c \<leftarrow> re_tail s';
     Some (v, c)
   })\<close>

text \<open>From the quote that closes the key: \<^verbatim>\<open>" ?= ?"\<close>, then the value.\<close>

definition re_equals :: "string \<Rightarrow> (string \<times> string option) option" where
  \<open>re_equals s = do {
     s1 \<leftarrow> lit ''"'' s;
     first_match (\<lambda>s2. do {
       s3 \<leftarrow> lit ''='' s2;
       first_match (\<lambda>s4. do {
         s5 \<leftarrow> lit ''"'' s4;
         first_match re_value_close (dot_plus s5)
       }) (opt_space s3)
     }) (opt_space s1)
   }\<close>

definition LOCALIZED_STRING_EXPR :: "string \<Rightarrow> (string \<times> string \<times> string option) option" where
  \<open>LOCALIZED_STRING_EXPR line = do {
     s \<leftarrow> lit ''"'' line;
     first_match (\<lambda>(k, s'). do { (v, c) \<leftarrow> re_equals s'; Some (k, v, c) }) (dot_plus s)
   }\<close>

section \<open>The record model\<close>

text \<open>
  \<open>LocalizedString\<close> has a key, an optional value (\<open>value=None\<close> is the constructor's
  default) and an optional comment. The field \<open>value\<close> is \<open>val\<close> here.
\<close>

record LocalizedString =
  key :: string
  val :: "string option"
  comment :: "string option"

definition parse_comment :: "string \<Rightarrow> string option" where
  "parse_comment line = COMMENT_EXPR line"

definition from_line :: "string \<Rightarrow> LocalizedString option" where
  "from_line line =
     (case LOCALIZED_STRING_EXPR line of
        Some (k, v, c) \<Rightarrow> Some \<lparr>key = k, val = Some v, comment = c\<rparr>
      | None \<Rightarrow> None)"

definition is_raw :: "LocalizedString \<Rightarrow> bool" where
  "is_raw r \<longleftrightarrow> val r = Some (key r)"

text \<open>\<open>__str__\<close>, which \<open>unicode(r)\<close> and \<open>'%s' % r\<close> call.\<close>

definition to_str :: "LocalizedString \<Rightarrow> string" where
  \<open>to_str r =
     (if truthy (comment r)
      then ''"'' @ or_empty (Some (key r)) @ ''" = "'' @ or_empty (val r) @ ''"; /* ''
             @ or_empty (comment r) @ '' */''
      else ''"'' @ or_empty (Some (key r)) @ ''" = "'' @ or_empty (val r) @ ''";'')\<close>

section \<open>Dictionaries\<close>

text \<open>
  A dictionary of records is an association list: the order of the list is the order in
  which Python happens to iterate over the dictionary, which the source does not control,
  so every statement below is for any order. A dictionary has each key once
  (\<open>distinct (map fst d)\<close>), and each entry holds a record object of its own; a store
  \<open>d[k] = v\<close> is \<open>AList.update k v d\<close>. Where the source assigns to a field of a record
  that it reached through a dictionary, the dictionary is returned updated.
\<close>

type_synonym strings_dict = "(string \<times> LocalizedString) list"

text \<open>\<open>keys = strings.keys(); keys.sort()\<close>, then the records in that order.\<close>

definition sorted_keys :: "strings_dict \<Rightarrow> string list" where
  "sorted_keys strings = sort (map fst strings)"

definition sorted_strings_from_dict :: "strings_dict \<Rightarrow> LocalizedString list" where
  "sorted_strings_from_dict strings = List.map_filter (map_of strings) (sorted_keys strings)"


section \<open>The merge engine\<close>

text \<open>
  \<open>match_strings\<close> assigns \<open>reference_value.comment = value.comment\<close> on the record it
  found in \<open>reference_strings\<close>, so the function returns the result together with the
  reference dictionary as it is afterwards. The \<open>[raw]\<close>, \<open>[new]\<close> and \<open>[deleted]\<close>
  debug lines are not part of the result.
\<close>

definition match_step ::
  "string \<times> LocalizedString \<Rightarrow> strings_dict \<times> strings_dict \<Rightarrow> strings_dict \<times> strings_dict" where
  "match_step = (\<lambda>(k, v) (final_strings, reference_strings).
     (case map_of reference_strings k of
        Some reference_value \<Rightarrow>
          if is_raw reference_value
          then (AList.update k v final_strings, reference_strings)
          else (let reference_value' = reference_value\<lparr>comment := comment v\<rparr>
                in (AList.update k reference_value' final_strings,
                    AList.update k reference_value' reference_strings))
      | None \<Rightarrow> (AList.update k v final_strings, reference_strings)))"

definition match_strings :: "strings_dict \<Rightarrow> strings_dict \<Rightarrow> strings_dict \<times> strings_dict" where
  "match_strings scanned_strings reference_strings =
     fold match_step scanned_strings ([], reference_strings)"


section \<open>The tree extractor\<close>

text \<open>
  An element of the translation export as \<open>ElementTree\<close> gives it: a tag, a text
  (\<open>node_text\<close> here, the attribute \<open>text\<close> of the source) that is \<open>None\<close> for an element
  without text, and the children in document order.
\<close>

datatype node = Node (tag: string) (node_text: "string option") (getchildren: "node list")

text \<open>
  The loop over the children of a \<open>TranslationSet\<close>: \<open>base\<close> and \<open>tran\<close> start as the
  empty text and take the text of each child of that tag in turn.
\<close>

definition scan_set :: "node list \<Rightarrow> string option \<times> string option" where
  "scan_set items =
     fold (\<lambda>item (base, tran).
             (if tag item = ''base'' then node_text item else base,
              if tag item = ''tran'' then node_text item else tran))
       items (Some [], Some [])"

text \<open>
  The spec's reading of a set's \<open>base\<close> and \<open>tran\<close>: the text of the child of that tag
  (the last one when there are several), absent when the set has no such child or the
  child has no text.
\<close>

definition child_text :: "string \<Rightarrow> node \<Rightarrow> string option" where
  "child_text t node =
     (case filter (\<lambda>item. tag item = t) (getchildren node) of
        [] \<Rightarrow> None
      | items \<Rightarrow> node_text (last items))"

text \<open>
  \<open>recur_node\<close> appends to the list it is given; the list is returned. The \<open>find\<close> calls
  are reached only when both texts are present, as the \<open>and\<close> chain of the source has it.
\<close>

function recur_node :: "node option \<Rightarrow> LocalizedString list \<Rightarrow> LocalizedString list" where
  "recur_node None localized_strings = localized_strings"
| \<open>recur_node (Some node) localized_strings =
     (if tag node = ''TranslationSet''
      then (case scan_set (getchildren node) of
              (Some base, Some tran) \<Rightarrow>
                if base \<noteq> [] \<and> tran \<noteq> []
                   \<and> find_str base ''"'' = - 1 \<and> find_str base [CHR 0x0A] = - 1
                   \<and> find_str tran ''"'' = - 1 \<and> find_str tran [CHR 0x0A] = - 1
                then localized_strings @ [\<lparr>key = base, val = Some tran, comment = None\<rparr>]
                else localized_strings
            | _ \<Rightarrow> localized_strings)
      else fold (\<lambda>item acc. recur_node (Some item) acc) (getchildren node) localized_strings)\<close>
  by pat_completeness auto
termination
proof (relation "measure (\<lambda>(n, acc). case n of None \<Rightarrow> 0 | Some x \<Rightarrow> size x)")
  show "wf (measure (\<lambda>(n, acc). case n of None \<Rightarrow> 0 | Some x \<Rightarrow> size x))"
    by simp
next
  fix node :: node and localized_strings item :: "LocalizedString list" and x :: node
    and acc :: "LocalizedString list"
  assume "x \<in> set (getchildren node)"
  then have "size x < size node"
    by (cases node) (auto simp: less_Suc_eq_le size_list_estimation')
  then show "((Some x, acc), (Some node, localized_strings))
              \<in> measure (\<lambda>(n, acc). case n of None \<Rightarrow> 0 | Some x \<Rightarrow> size x)"
    by simp
qed

text \<open>
  The spec's reading of the extractor, to compare \<open>recur_node\<close> with. A set gives the
  record with key \<open>base\<close> and value \<open>tran\<close> when both texts are present, not empty and
  without a double quote or a line feed, and nothing otherwise.
\<close>

definition set_records :: "node \<Rightarrow> LocalizedString list" where
  \<open>set_records node =
     (case (child_text ''base'' node, child_text ''tran'' node) of
        (Some base, Some tran) \<Rightarrow>
          if base \<noteq> [] \<and> tran \<noteq> []
             \<and> CHR 0x22 \<notin> set base \<and> CHR 0x0A \<notin> set base
             \<and> CHR 0x22 \<notin> set tran \<and> CHR 0x0A \<notin> set tran
          then [\<lparr>key = base, val = Some tran, comment = None\<rparr>]
          else []
      | _ \<Rightarrow> [])\<close>

text \<open>
  Every node of an export in document order, each with the tags of the nodes it lies in
  (the nearest first); and the nodes of tag \<open>TranslationSet\<close> that lie in no other
  \<open>TranslationSet\<close>, in document order.
\<close>

fun export_nodes :: "string list \<Rightarrow> node \<Rightarrow> (string list \<times> node) list" where
  "export_nodes ancestors (Node t x cs) =
     (ancestors, Node t x cs) # concat (map (export_nodes (t # ancestors)) cs)"

definition outermost_sets :: "node \<Rightarrow> node list" where
  "outermost_sets root =
     map snd (filter (\<lambda>(ancestors, n). tag n = ''TranslationSet''
                                        \<and> ''TranslationSet'' \<notin> set ancestors)
                (export_nodes [] root))"

text \<open>
  \<open>ElementTree.parse(file_path).getroot()\<close> either returns the root element or raises;
  the bare \<open>except\<close> catches whatever it raises and logs it. The local \<open>root\<close> is bound
  only when the call returned, and reading an unbound local raises \<open>UnboundLocalError\<close>.
\<close>

datatype parse_outcome = Raised | Returned node

datatype error = UnboundLocalError | UnicodeError

definition strings_from_encoded_lg_file :: "parse_outcome \<Rightarrow> error + LocalizedString list" where
  "strings_from_encoded_lg_file parsed =
     (let localized_strings = [];
          root = (case parsed of Returned r \<Rightarrow> Some r | Raised \<Rightarrow> None)
      in case root of
           None \<Rightarrow> Inl UnboundLocalError
         | Some r \<Rightarrow> Inr (recur_node (Some r) localized_strings))"

definition ENCODINGS :: "string list" where
  "ENCODINGS = [''utf16'', ''utf8'']"

text \<open>
  \<open>strings_from_lg_file\<close> tries each encoding and goes on to the next one on a
  \<open>UnicodeError\<close> only; with none left it logs and returns an empty result.
\<close>

fun try_encodings :: "string list \<Rightarrow> parse_outcome \<Rightarrow> error + LocalizedString list" where
  "try_encodings [] parsed = Inr []"
| "try_encodings (current_encoding # rest) parsed =
     (case strings_from_encoded_lg_file parsed of
        Inl UnicodeError \<Rightarrow> try_encodings rest parsed
      | Inl e \<Rightarrow> Inl e
      | Inr r \<Rightarrow> Inr r)"

definition strings_from_lg_file :: "parse_outcome \<Rightarrow> error + LocalizedString list" where
  "strings_from_lg_file parsed = try_encodings ENCODINGS parsed"

section \<open>The line parser\<close>

text \<open>
  \<open>strings_from_encoded_file\<close> reads the decoded file line by line; \<open>content\<close> is the
  list of lines that the iteration yields. The state of the loop is the dictionary built
  so far and the local \<open>comment\<close>, the comment waiting for the next record (\<open>pending\<close>
  here). A line that matches neither pattern is logged and left out.
\<close>

definition parse_line ::
  "string \<Rightarrow> strings_dict \<times> string option \<Rightarrow> strings_dict \<times> string option" where
  "parse_line raw_line = (\<lambda>(localized_strings, pending).
     (let line = strip raw_line in
      if line = [] then (localized_strings, None)
      else (let current_comment = parse_comment line in
            if truthy current_comment
            then (localized_strings,
                  if current_comment \<noteq> Some ''No comment provided by engineer.''
                  then current_comment else pending)
            else (case from_line line of
                    Some localized_string \<Rightarrow>
                      (let localized_string' =
                             (if \<not> truthy (comment localized_string)
                              then localized_string\<lparr>comment := pending\<rparr>
                              else localized_string)
                       in (AList.update (key localized_string') localized_string'
                             localized_strings, pending))
                  | None \<Rightarrow> (localized_strings, pending)))))"

definition strings_from_encoded_file :: "string list \<Rightarrow> strings_dict" where
  "strings_from_encoded_file content = fst (fold parse_line content ([], None))"

section \<open>The categorizing writer\<close>

text \<open>
  \<open>str(x)\<close> for an optional text: \<open>str(None)\<close> is the text \<open>None\<close>, and \<open>str\<close> of a
  decoded text encodes it with the ASCII codec, which raises \<open>UnicodeEncodeError\<close> (a
  \<open>UnicodeError\<close>) when a character of the text is not ASCII.
\<close>

definition is_ascii :: "string \<Rightarrow> bool" where
  "is_ascii s = list_all (\<lambda>c. of_char c < (128 :: nat)) s"

fun py_str :: "string option \<Rightarrow> error + string" where
  "py_str None = Inr ''None''"
| "py_str (Some s) = (if is_ascii s then Inr s else Inl UnicodeError)"

text \<open>
  The first loop of \<open>strings_to_file\<close> puts the key of each record into one of the three
  sets \<open>trans_keys\<close>, \<open>not_keys\<close> and \<open>extra_keys\<close>. It takes \<open>str(comment)\<close> of every
  record first, and the error of that call ends the loop and the function.
\<close>

definition categorize_step ::
  "string set \<Rightarrow> LocalizedString \<Rightarrow> string set \<times> string set \<times> string set
     \<Rightarrow> error + string set \<times> string set \<times> string set" where
  "categorize_step escape_keys localized_string = (\<lambda>(trans_keys, not_keys, extra_keys).
     (let k = key localized_string
      in case py_str (comment localized_string) of
           Inl e \<Rightarrow> Inl e
         | Inr comment_str \<Rightarrow>
             Inr (if is_raw localized_string
                  then if k \<in> escape_keys
                       then if find_str comment_str ''extra'' \<ge> 0
                            then (trans_keys, not_keys, insert k extra_keys)
                            else (insert k trans_keys, not_keys, extra_keys)
                       else (trans_keys, insert k not_keys, extra_keys)
                  else if find_str comment_str ''extra'' \<ge> 0
                       then (trans_keys, not_keys, insert k extra_keys)
                       else (insert k trans_keys, not_keys, extra_keys))))"

fun categorize_loop ::
  "string set \<Rightarrow> LocalizedString list \<Rightarrow> string set \<times> string set \<times> string set
     \<Rightarrow> error + string set \<times> string set \<times> string set" where
  "categorize_loop escape_keys [] sets = Inr sets"
| "categorize_loop escape_keys (localized_string # rest) sets =
     (case categorize_step escape_keys localized_string sets of
        Inl e \<Rightarrow> Inl e
      | Inr sets' \<Rightarrow> categorize_loop escape_keys rest sets')"

definition categorize ::
  "strings_dict \<Rightarrow> strings_dict \<Rightarrow> error + string set \<times> string set \<times> string set" where
  "categorize localized_strings escape_strings =
     (let escape_keys = set (map key (sorted_strings_from_dict escape_strings))
      in categorize_loop escape_keys (sorted_strings_from_dict localized_strings)
           ({}, {}, {}))"

text \<open>
  The loops that write a section. The loops for the translated and the not translated
  records set \<open>localized_string.comment = None\<close> on the record of the dictionary before
  they write it, so they run over the sorted keys with the dictionary as state; the loop
  for the extra records only writes. \<open>output\<close> is the text written so far.
\<close>

definition write_cleared ::
  "string set \<Rightarrow> string \<Rightarrow> string \<times> strings_dict \<Rightarrow> string \<times> strings_dict" where
  "write_cleared keys k = (\<lambda>(output, localized_strings).
     (case map_of localized_strings k of
        None \<Rightarrow> (output, localized_strings)
      | Some localized_string \<Rightarrow>
          if key localized_string \<in> keys
          then (let localized_string' = localized_string\<lparr>comment := None\<rparr>
                in (output @ to_str localized_string' @ [CHR 0x0A, CHR 0x0A],
                    AList.update k localized_string' localized_strings))
          else (output, localized_strings)))"

definition write_kept :: "string set \<Rightarrow> LocalizedString \<Rightarrow> string \<Rightarrow> string" where
  "write_kept keys localized_string output =
     (if key localized_string \<in> keys
      then output @ to_str localized_string @ [CHR 0x0A, CHR 0x0A]
      else output)"

text \<open>
  \<open>strings_to_file\<close> returns the text written to the file together with the dictionary
  \<open>localized_strings\<close> as the caller finds it afterwards, or the error of the first
  loop, which is raised before anything is written and before any record is changed.
\<close>

definition strings_to_file ::
  "strings_dict \<Rightarrow> strings_dict \<Rightarrow> error + string \<times> strings_dict" where
  "strings_to_file localized_strings escape_strings =
     (case categorize localized_strings escape_strings of
        Inl e \<Rightarrow> Inl e
      | Inr (trans_keys, not_keys, extra_keys) \<Rightarrow>
          Inr (case fold (write_cleared trans_keys) (sorted_keys localized_strings)
                  ([], localized_strings) of
             (output1, strings1) \<Rightarrow>
               (let output2 =
                      (if extra_keys \<noteq> {}
                       then fold (write_kept extra_keys) (sorted_strings_from_dict strings1)
                              (output1 @ [CHR 0x0A] @ ''/*Extra*/''
                                 @ [CHR 0x0A] @ [CHR 0x0A] @ [CHR 0x0A])
                       else output1)
                in if not_keys \<noteq> {}
                   then fold (write_cleared not_keys) (sorted_keys strings1)
                          (output2 @ [CHR 0x0A] @ ''/*Not Translated*/''
                             @ [CHR 0x0A] @ [CHR 0x0A] @ [CHR 0x0A], strings1)
                   else (output2, strings1))))"

section \<open>The incremental updater\<close>

text \<open>
  \<open>update_encoded_file_with_strings\<close> reads the lines of the file, which exists, and
  writes the file anew; \<open>content\<close> is the list of lines that the iteration yields, each
  with its line ending if it has one, and the result is the text written. The state of
  the first loop is \<open>output_strings\<close> and the set \<open>keys\<close>; \<open>line[:-1]\<close> is \<open>butlast\<close>.
\<close>

definition update_step ::
  "strings_dict \<Rightarrow> string \<Rightarrow> string list \<times> string set \<Rightarrow> string list \<times> string set" where
  "update_step localized_strings line = (\<lambda>(output_strings, keys).
     (case from_line (strip line) of
        Some current_string \<Rightarrow>
          (case map_of localized_strings (key current_string) of
             Some localized_string \<Rightarrow>
               (output_strings @ [to_str localized_string], insert (key current_string) keys)
           | None \<Rightarrow> (output_strings, keys))
      | None \<Rightarrow> (output_strings @ [butlast line], keys)))"

definition new_strings_of :: "strings_dict \<Rightarrow> string set \<Rightarrow> string list" where
  "new_strings_of localized_strings keys =
     map to_str (filter (\<lambda>v. key v \<notin> keys) (map snd localized_strings))"

definition update_encoded_file_with_strings :: "string list \<Rightarrow> strings_dict \<Rightarrow> string" where
  "update_encoded_file_with_strings content localized_strings =
     (case fold (update_step localized_strings) content ([], {}) of
        (output_strings, keys) \<Rightarrow>
          (let new_strings = new_strings_of localized_strings keys;
               output_strings' =
                 (if new_strings \<noteq> []
                  then output_strings @ [[], ''/* New strings */''] @ sort new_strings
                  else output_strings)
           in join [CHR 0x0A] output_strings' @ [CHR 0x0A]))"

section \<open>Properties of the record model\<close>

text \<open>
  C9. \<open>is_raw\<close> (the spec's \<open>is_untranslated\<close>) is true exactly when the record's value
  is its key, and false for every other value, an absent value included.
\<close>

theorem is_raw_iff_value_is_key:
  "is_raw \<lparr>key = k, val = v, comment = c\<rparr> = (v = Some k)"
  by (simp add: is_raw_def)

section \<open>Properties of the merge engine\<close>






lemma match_fold_lookup:
  "distinct (map fst xs) \<Longrightarrow>
   fold match_step xs (fin, ref) = (fin', ref') \<Longrightarrow>
   map_of fin' k =
     (case map_of xs k of
        Some s \<Rightarrow> Some (case map_of ref k of None \<Rightarrow> s
                 | Some r \<Rightarrow> if is_raw r then s else r\<lparr>comment := comment s\<rparr>)
      | None \<Rightarrow> map_of fin k) \<and>
   map_of ref' k =
     (case map_of xs k of
        Some s \<Rightarrow> (case map_of ref k of None \<Rightarrow> None
                 | Some r \<Rightarrow> Some (if is_raw r then r else r\<lparr>comment := comment s\<rparr>))
      | None \<Rightarrow> map_of ref k)"
proof (induction xs arbitrary: fin ref)
  case Nil
  then show ?case by simp
next
  case (Cons a xs)
  obtain k' v' where a: "a = (k', v')" by (cases a)
  from Cons.prems have d: "distinct (map fst xs)" and nk: "k' \<notin> fst ` set xs"
    by (auto simp: a)
  have nk': "map_of xs k' = None" using nk by (simp add: map_of_eq_None_iff)
  obtain fin1 ref1 where s1: "match_step a (fin, ref) = (fin1, ref1)" by (cases "match_step a (fin, ref)")
  from Cons.prems(2) have f: "fold match_step xs (fin1, ref1) = (fin', ref')" by (simp add: s1)
  note ih = Cons.IH [OF d f]
  from s1 show ?case using ih nk' 
    by (auto simp: a match_step_def update_conv' Let_def split: option.splits if_splits)
qed


text \<open>
  C1. For a scanned dictionary and a reference dictionary, the result of
  \<open>match_strings\<close> has exactly the keys of the scanned dictionary (a key that only the
  reference has is not in it), and at every scanned key \<open>k\<close>: the scanned record when the
  reference has no entry at \<open>k\<close>, the scanned record when the reference's entry is
  untranslated, and otherwise the reference's entry with the scanned record's comment.
\<close>

theorem match_strings_result:
  assumes "distinct (map fst scanned_strings)"
  shows "fst ` set (fst (match_strings scanned_strings reference_strings))
           = fst ` set scanned_strings \<and>
         (\<forall>k s. map_of scanned_strings k = Some s \<longrightarrow>
            (map_of reference_strings k = None \<longrightarrow>
               map_of (fst (match_strings scanned_strings reference_strings)) k = Some s) \<and>
            (\<forall>r. map_of reference_strings k = Some r \<and> is_raw r \<longrightarrow>
               map_of (fst (match_strings scanned_strings reference_strings)) k = Some s) \<and>
            (\<forall>r. map_of reference_strings k = Some r \<and> \<not> is_raw r \<longrightarrow>
               map_of (fst (match_strings scanned_strings reference_strings)) k
                 = Some (r\<lparr>comment := comment s\<rparr>)))"
proof -
  obtain fin ref' where m: "match_strings scanned_strings reference_strings = (fin, ref')"
    by (cases "match_strings scanned_strings reference_strings")
  then have f: "fold match_step scanned_strings ([], reference_strings) = (fin, ref')"
    by (simp add: match_strings_def)
  have look: "map_of fin k =
     (case map_of scanned_strings k of
        Some s \<Rightarrow> Some (case map_of reference_strings k of None \<Rightarrow> s
                 | Some r \<Rightarrow> if is_raw r then s else r\<lparr>comment := comment s\<rparr>)
      | None \<Rightarrow> None)" for k
    using match_fold_lookup [OF assms f, of k] by (simp split: option.splits)
  have "dom (map_of fin) = dom (map_of scanned_strings)"
    by (auto simp: look dom_def split: option.splits)
  then have keys: "fst ` set fin = fst ` set scanned_strings"
    by (simp add: dom_map_of_conv_image_fst)
  show ?thesis
    unfolding m fst_conv using keys by (simp add: look)
qed

theorem match_strings_result_witness:
  "distinct (map fst [(''A'', \<lparr>key = ''A'', val = Some ''A'', comment = Some ''srccomment''\<rparr>),
                      (''B'', \<lparr>key = ''B'', val = Some ''B'', comment = Some ''b''\<rparr>)]) \<and>
   map_of (fst (match_strings
      [(''A'', \<lparr>key = ''A'', val = Some ''A'', comment = Some ''srccomment''\<rparr>),
       (''B'', \<lparr>key = ''B'', val = Some ''B'', comment = Some ''b''\<rparr>)]
      [(''A'', \<lparr>key = ''A'', val = Some ''Bonjour'', comment = None\<rparr>),
       (''C'', \<lparr>key = ''C'', val = Some ''Salut'', comment = None\<rparr>)])) ''A''
     = Some \<lparr>key = ''A'', val = Some ''Bonjour'', comment = Some ''srccomment''\<rparr> \<and>
   map_of (fst (match_strings
      [(''A'', \<lparr>key = ''A'', val = Some ''A'', comment = Some ''srccomment''\<rparr>),
       (''B'', \<lparr>key = ''B'', val = Some ''B'', comment = Some ''b''\<rparr>)]
      [(''A'', \<lparr>key = ''A'', val = Some ''Bonjour'', comment = None\<rparr>),
       (''C'', \<lparr>key = ''C'', val = Some ''Salut'', comment = None\<rparr>)])) ''B''
     = Some \<lparr>key = ''B'', val = Some ''B'', comment = Some ''b''\<rparr> \<and>
   fst ` set (fst (match_strings
      [(''A'', \<lparr>key = ''A'', val = Some ''A'', comment = Some ''srccomment''\<rparr>),
       (''B'', \<lparr>key = ''B'', val = Some ''B'', comment = Some ''b''\<rparr>)]
      [(''A'', \<lparr>key = ''A'', val = Some ''Bonjour'', comment = None\<rparr>),
       (''C'', \<lparr>key = ''C'', val = Some ''Salut'', comment = None\<rparr>)])) = {''A'', ''B''}"
proof -
  let ?sc = "[(''A'', \<lparr>key = ''A'', val = Some ''A'', comment = Some ''srccomment''\<rparr>),
              (''B'', \<lparr>key = ''B'', val = Some ''B'', comment = Some ''b''\<rparr>)]"
  let ?rf = "[(''A'', \<lparr>key = ''A'', val = Some ''Bonjour'', comment = None\<rparr>),
              (''C'', \<lparr>key = ''C'', val = Some ''Salut'', comment = None\<rparr>)]"
  have d: "distinct (map fst ?sc)" by simp
  show ?thesis
    using d match_strings_result [OF d, of ?rf]
    by (simp add: is_raw_def match_strings_def match_step_def Let_def)
qed

text \<open>
  The effect of \<open>match_strings\<close> on the reference dictionary: the entry at a scanned key
  whose reference record is translated has taken the scanned record's comment; every
  other entry is as it was.
\<close>

lemma match_strings_reference:
  assumes "distinct (map fst scanned_strings)"
  shows "map_of (snd (match_strings scanned_strings reference_strings)) k =
     (case map_of scanned_strings k of
        Some s \<Rightarrow> (case map_of reference_strings k of None \<Rightarrow> None
                 | Some r \<Rightarrow> Some (if is_raw r then r else r\<lparr>comment := comment s\<rparr>))
      | None \<Rightarrow> map_of reference_strings k)"
proof -
  obtain fin ref' where m: "match_strings scanned_strings reference_strings = (fin, ref')"
    by (cases "match_strings scanned_strings reference_strings")
  then have f: "fold match_step scanned_strings ([], reference_strings) = (fin, ref')"
    by (simp add: match_strings_def)
  show ?thesis
    unfolding m snd_conv using match_fold_lookup [OF assms f, of k] by simp
qed

section \<open>Properties of the tree extractor\<close>

lemma find_str_ge: "- 1 \<le> find_str s sub"
  by (induction s) (auto simp: Let_def)

lemma find_str_single: "find_str s [c] = - 1 \<longleftrightarrow> c \<notin> set s"
proof (induction s)
  case Nil
  then show ?case by simp
next
  case (Cons a s)
  have "- 1 \<le> find_str s [c]" by (rule find_str_ge)
  with Cons show ?case by (auto simp: Let_def)
qed

lemma scan_set_fold:
  "fold (\<lambda>item (base, tran).
             (if tag item = ''base'' then node_text item else base,
              if tag item = ''tran'' then node_text item else tran)) items (b0, t0) =
   ((case filter (\<lambda>item. tag item = ''base'') items of [] \<Rightarrow> b0 | xs \<Rightarrow> node_text (last xs)),
    (case filter (\<lambda>item. tag item = ''tran'') items of [] \<Rightarrow> t0 | xs \<Rightarrow> node_text (last xs)))"
proof (induction items arbitrary: b0 t0)
  case Nil
  then show ?case by simp
next
  case (Cons a items)
  show ?case
    by (simp add: Cons.IH split: list.splits)
qed

lemma scan_set_child_text:
  "scan_set (getchildren node) =
    ((if \<exists>item \<in> set (getchildren node). tag item = ''base'' then child_text ''base'' node else Some []),
     (if \<exists>item \<in> set (getchildren node). tag item = ''tran'' then child_text ''tran'' node else Some []))"
  unfolding scan_set_def scan_set_fold child_text_def
  by (auto simp: filter_empty_conv split: list.splits)

lemma child_text_absent:
  "\<not> (\<exists>item \<in> set (getchildren node). tag item = t) \<Longrightarrow> child_text t node = None"
  by (auto simp: child_text_def filter_empty_conv split: list.splits)

text \<open>
  On a node of tag \<open>TranslationSet\<close> itself the extractor appends the record with key
  \<open>base\<close> and value \<open>tran\<close> exactly when both texts are present and not empty and
  neither holds a double quote or a line feed; in every other case it appends nothing.
\<close>

lemma recur_node_on_set:
  assumes "tag node = ''TranslationSet''"
  shows \<open>recur_node (Some node) acc =
    (case (child_text ''base'' node, child_text ''tran'' node) of
       (Some base, Some tran) \<Rightarrow>
         if base \<noteq> [] \<and> tran \<noteq> []
            \<and> CHR 0x22 \<notin> set base \<and> CHR 0x0A \<notin> set base
            \<and> CHR 0x22 \<notin> set tran \<and> CHR 0x0A \<notin> set tran
         then acc @ [\<lparr>key = base, val = Some tran, comment = None\<rparr>]
         else acc
     | _ \<Rightarrow> acc)\<close>
proof -
  consider (both) "(\<exists>item \<in> set (getchildren node). tag item = ''base'')"
      "(\<exists>item \<in> set (getchildren node). tag item = ''tran'')"
    | (nobase) "\<not> (\<exists>item \<in> set (getchildren node). tag item = ''base'')"
    | (notran) "\<not> (\<exists>item \<in> set (getchildren node). tag item = ''tran'')"
    by blast
  then show ?thesis
  proof cases
    case both
    then show ?thesis
      using assms
      by (simp add: scan_set_child_text find_str_single split: option.splits)
  next
    case nobase
    then show ?thesis
      using assms child_text_absent [OF nobase]
      by (simp add: scan_set_child_text find_str_single split: option.splits)
  next
    case notran
    then show ?thesis
      using assms child_text_absent [OF notran]
      by (simp add: scan_set_child_text find_str_single split: option.splits)
  qed
qed

lemma recur_node_set:
  assumes "tag node = ''TranslationSet''"
  shows "recur_node (Some node) acc = acc @ set_records node"
  using recur_node_on_set [OF assms, of acc]
  by (simp add: set_records_def split: option.splits)

lemma recur_node_fold:
  "(\<And>x acc. x \<in> set cs \<Longrightarrow> recur_node (Some x) acc = acc @ f x) \<Longrightarrow>
   fold (\<lambda>item acc. recur_node (Some item) acc) cs acc = acc @ concat (map f cs)"
  by (induction cs arbitrary: acc) simp_all

lemma export_nodes_inside_set:
  "''TranslationSet'' \<in> set ancestors \<Longrightarrow>
   filter (\<lambda>(ancestors, n). tag n = ''TranslationSet'' \<and> ''TranslationSet'' \<notin> set ancestors)
     (export_nodes ancestors n) = []"
proof (induction n arbitrary: ancestors)
  case (Node t x cs)
  have "filter (\<lambda>(ancestors, n). tag n = ''TranslationSet'' \<and> ''TranslationSet'' \<notin> set ancestors)
          (export_nodes (t # ancestors) c) = []" if "c \<in> set cs" for c
    using Node.IH [OF that, of "t # ancestors"] Node.prems by simp
  then show ?case
    using Node.prems by (simp add: filter_concat o_def)
qed

lemma concat_concat_map:
  "concat (concat (map g xs)) = concat (map (\<lambda>x. concat (g x)) xs)"
  by (induction xs) simp_all

lemma recur_node_below:
  "''TranslationSet'' \<notin> set ancestors \<Longrightarrow>
   recur_node (Some n) acc =
     acc @ concat (map set_records (map snd
       (filter (\<lambda>(ancestors, n). tag n = ''TranslationSet'' \<and> ''TranslationSet'' \<notin> set ancestors)
          (export_nodes ancestors n))))"
proof (induction n arbitrary: ancestors acc)
  case (Node t x cs)
  let ?P = "\<lambda>(ancestors, n). tag n = ''TranslationSet'' \<and> ''TranslationSet'' \<notin> set ancestors"
  show ?case
  proof (cases "t = ''TranslationSet''")
    case True
    have "filter ?P (export_nodes (t # ancestors) c) = []" for c
      using export_nodes_inside_set [of "t # ancestors" c] True by simp
    then have "filter ?P (concat (map (export_nodes (t # ancestors)) cs)) = []"
      by (simp add: filter_concat o_def)
    then have "filter ?P (export_nodes ancestors (Node t x cs)) = [(ancestors, Node t x cs)]"
      using True Node.prems by simp
    moreover have "recur_node (Some (Node t x cs)) acc = acc @ set_records (Node t x cs)"
      using True by (intro recur_node_set) simp
    ultimately show ?thesis by simp
  next
    case False
    have ih: "recur_node (Some c) a =
        a @ concat (map set_records (map snd (filter ?P (export_nodes (t # ancestors) c))))"
      if "c \<in> set cs" for c a
      using Node.IH [OF that, of "t # ancestors" a] Node.prems False by simp
    have "recur_node (Some (Node t x cs)) acc =
            fold (\<lambda>item acc. recur_node (Some item) acc) cs acc"
      by (subst recur_node.simps(2)) (simp only: node.sel False if_False)
    also have "\<dots> = acc @ concat (map (\<lambda>c. concat (map set_records (map snd
                      (filter ?P (export_nodes (t # ancestors) c))))) cs)"
      by (rule recur_node_fold) (rule ih)
    also have "\<dots> = acc @ concat (map set_records (map snd
                     (filter ?P (export_nodes ancestors (Node t x cs)))))"
      using False
      by (simp add: filter_concat map_concat o_def concat_concat_map)
    finally show ?thesis .
  qed
qed

text \<open>
  C6. The records that the extractor adds for an export are, in document order, those of
  the nodes of tag \<open>TranslationSet\<close> that lie in no other \<open>TranslationSet\<close>: each such
  set gives the record with key \<open>base\<close> and value \<open>tran\<close> exactly when both child texts
  are present and not empty and neither holds a double quote or a line feed, and no
  record otherwise; nothing else in the export gives a record.
\<close>

theorem recur_node_outermost_sets:
  "recur_node (Some root) acc = acc @ concat (map set_records (outermost_sets root))"
  unfolding outermost_sets_def by (rule recur_node_below) simp

theorem recur_node_outermost_sets_witness:
  \<open>outermost_sets (Node ''TS'' None [Node ''Context'' None
       [Node ''TranslationSet'' None
          [Node ''base'' (Some ''Hello'') [], Node ''tran'' (Some ''Bonjour'') []],
        Node ''TranslationSet'' None
          [Node ''base'' (Some ''He said "hi"'') [], Node ''tran'' (Some ''ok'') []]]])
     = [Node ''TranslationSet'' None
          [Node ''base'' (Some ''Hello'') [], Node ''tran'' (Some ''Bonjour'') []],
        Node ''TranslationSet'' None
          [Node ''base'' (Some ''He said "hi"'') [], Node ''tran'' (Some ''ok'') []]] \<and>
   recur_node (Some (Node ''TS'' None [Node ''Context'' None
       [Node ''TranslationSet'' None
          [Node ''base'' (Some ''Hello'') [], Node ''tran'' (Some ''Bonjour'') []],
        Node ''TranslationSet'' None
          [Node ''base'' (Some ''He said "hi"'') [], Node ''tran'' (Some ''ok'') []]]])) []
     = [\<lparr>key = ''Hello'', val = Some ''Bonjour'', comment = None\<rparr>]\<close>
  using recur_node_outermost_sets
     [of \<open>Node ''TS'' None [Node ''Context'' None
       [Node ''TranslationSet'' None
          [Node ''base'' (Some ''Hello'') [], Node ''tran'' (Some ''Bonjour'') []],
        Node ''TranslationSet'' None
          [Node ''base'' (Some ''He said "hi"'') [], Node ''tran'' (Some ''ok'') []]]]\<close> "[]"]
  by (simp add: outermost_sets_def set_records_def child_text_def)

text \<open>
  A \<open>TranslationSet\<close> inside another \<open>TranslationSet\<close> is not reached: the extractor
  reads the children of a set for \<open>base\<close> and \<open>tran\<close> only and does not go into them. Here
  the inner set has both texts, not empty and without a double quote or a line feed, and
  the export gives no record.
\<close>

theorem recur_node_nested_set:
  \<open>([''TranslationSet'', ''TS''],
      Node ''TranslationSet'' None
        [Node ''base'' (Some ''Hello'') [], Node ''tran'' (Some ''Bonjour'') []])
     \<in> set (export_nodes [] (Node ''TS'' None [Node ''TranslationSet'' None
            [Node ''TranslationSet'' None
               [Node ''base'' (Some ''Hello'') [], Node ''tran'' (Some ''Bonjour'') []]]])) \<and>
   child_text ''base'' (Node ''TranslationSet'' None
        [Node ''base'' (Some ''Hello'') [], Node ''tran'' (Some ''Bonjour'') []]) = Some ''Hello'' \<and>
   child_text ''tran'' (Node ''TranslationSet'' None
        [Node ''base'' (Some ''Hello'') [], Node ''tran'' (Some ''Bonjour'') []]) = Some ''Bonjour'' \<and>
   recur_node (Some (Node ''TS'' None [Node ''TranslationSet'' None
            [Node ''TranslationSet'' None
               [Node ''base'' (Some ''Hello'') [], Node ''tran'' (Some ''Bonjour'') []]]])) [] = []\<close>
  by (simp add: child_text_def scan_set_def)


text \<open>
  C7. When the translation export does not parse, \<open>strings_from_encoded_lg_file\<close> logs
  the failure and then reads the local \<open>root\<close>, which was never bound: it raises
  \<open>UnboundLocalError\<close> instead of returning an empty list, and \<open>strings_from_lg_file\<close>,
  which handles \<open>UnicodeError\<close> only, passes the error on to its caller.
\<close>

theorem strings_from_encoded_lg_file_unparsable:
  "strings_from_encoded_lg_file Raised = Inl UnboundLocalError \<and>
   strings_from_lg_file Raised = Inl UnboundLocalError"
  by (simp add: strings_from_encoded_lg_file_def strings_from_lg_file_def ENCODINGS_def)

lemma strings_from_encoded_lg_file_parsed:
  "strings_from_encoded_lg_file (Returned root) = Inr (recur_node (Some root) [])"
  by (simp add: strings_from_encoded_lg_file_def)

section \<open>Properties of the line parser\<close>

text \<open>
  C5. The sentinel \<open>No comment provided by engineer.\<close> is left out only where it stands
  on a comment line of its own: the record after such a line has no comment. The same
  sentinel written inline after a record is the comment of the record that
  \<open>strings_from_encoded_file\<close> returns, since \<open>from_line\<close> takes the comment group as it
  is and the loop replaces only an empty comment.
\<close>

theorem strings_from_encoded_file_inline_sentinel:
  \<open>strings_from_encoded_file
       [''"k" = "v"; /* No comment provided by engineer. */'' @ [CHR 0x0A]]
     = [(''k'', \<lparr>key = ''k'', val = Some ''v'',
                  comment = Some ''No comment provided by engineer.''\<rparr>)] \<and>
   strings_from_encoded_file [''/* No comment provided by engineer. */'' @ [CHR 0x0A],
                              ''"k" = "v";'' @ [CHR 0x0A]]
     = [(''k'', \<lparr>key = ''k'', val = Some ''v'', comment = None\<rparr>)]\<close>
  by code_simp

section \<open>Properties of the incremental updater\<close>

text \<open>
  C4. A line that is not a record is copied as \<open>line[:-1]\<close>, which takes the line feed off
  a line that ends in one. The last line of a file need not end in a line feed, and then
  \<open>line[:-1]\<close> takes its last character off: the line is not copied unchanged. Here the
  first line comes out as it was and the last line loses its \<open>/\<close>.
\<close>

theorem update_encoded_file_last_line:
  "update_encoded_file_with_strings [''// header'' @ [CHR 0x0A], ''/* end */''] []
     = ''// header'' @ [CHR 0x0A] @ ''/* end *'' @ [CHR 0x0A]"
  by (simp add: update_encoded_file_with_strings_def update_step_def new_strings_of_def
      from_line_def LOCALIZED_STRING_EXPR_def strip_def is_space_def)

section \<open>Properties of the categorizing writer\<close>

lemma map_filter_cong_set:
  "(\<And>x. x \<in> set xs \<Longrightarrow> f x = g x) \<Longrightarrow> List.map_filter f xs = List.map_filter g xs"
  by (induction xs) (simp_all split: option.splits)

lemma update_keys_present:
  "map_of d k = Some r \<Longrightarrow> map fst (AList.update k v d) = map fst d"
  by (simp add: update_keys) (metis map_of_eq_None_iff option.distinct(1))

lemma write_cleared_fold:
  "distinct ks \<Longrightarrow>
   fst (fold (write_cleared K) ks (out, d)) =
     out @ concat (map (\<lambda>r. to_str (r\<lparr>comment := None\<rparr>) @ [CHR 0x0A, CHR 0x0A])
                     (filter (\<lambda>r. key r \<in> K) (List.map_filter (map_of d) ks))) \<and>
   map fst (snd (fold (write_cleared K) ks (out, d))) = map fst d \<and>
   map_of (snd (fold (write_cleared K) ks (out, d))) =
     (\<lambda>k. case map_of d k of
             None \<Rightarrow> None
           | Some r \<Rightarrow> Some (if k \<in> set ks \<and> key r \<in> K then r\<lparr>comment := None\<rparr> else r))"
proof (induction ks arbitrary: out d)
  case Nil
  then show ?case by (auto simp: List.map_filter_simps split: option.splits)
next
  case (Cons k ks)
  from Cons.prems have d: "distinct ks" and nk: "k \<notin> set ks" by auto
  show ?case
  proof (cases "map_of d k")
    case None
    then have step: "write_cleared K k (out, d) = (out, d)"
      by (simp add: write_cleared_def)
    show ?thesis
      using Cons.IH [OF d, of out d] None
      by (auto simp: step List.map_filter_simps fun_eq_iff split: option.splits)
  next
    case (Some r)
    show ?thesis
    proof (cases "key r \<in> K")
      case False
      then have step: "write_cleared K k (out, d) = (out, d)"
        using Some by (simp add: write_cleared_def)
      show ?thesis
        using Cons.IH [OF d, of out d] Some False
        by (auto simp: step List.map_filter_simps fun_eq_iff split: option.splits)
    next
      case True
      let ?r = "r\<lparr>comment := None\<rparr>"
      let ?d = "AList.update k ?r d"
      let ?out = "out @ to_str ?r @ [CHR 0x0A, CHR 0x0A]"
      have step: "write_cleared K k (out, d) = (?out, ?d)"
        using Some True by (simp add: write_cleared_def Let_def)
      have mf: "List.map_filter (map_of ?d) ks = List.map_filter (map_of d) ks"
        using nk by (intro map_filter_cong_set) (auto simp: update_conv')
      have keys: "map fst ?d = map fst d"
        using Some by (rule update_keys_present)
      note ih = Cons.IH [OF d, of ?out ?d]
      have mo: "map_of ?d = (map_of d)(k \<mapsto> ?r)"
        by (simp add: update_conv')
      have f: "fold (write_cleared K) (k # ks) (out, d) = fold (write_cleared K) ks (?out, ?d)"
        by (simp add: step)
      have mfk: "List.map_filter (map_of d) (k # ks) = r # List.map_filter (map_of d) ks"
        using Some by simp
      have c1: "fst (fold (write_cleared K) ks (?out, ?d)) =
          out @ concat (map (\<lambda>r. to_str (r\<lparr>comment := None\<rparr>) @ [CHR 0x0A, CHR 0x0A])
                      (filter (\<lambda>r. key r \<in> K) (List.map_filter (map_of d) (k # ks))))"
        using ih True unfolding mf mfk by simp
      have c2: "map fst (snd (fold (write_cleared K) ks (?out, ?d))) = map fst d"
        using ih keys by simp
      have c3: "map_of (snd (fold (write_cleared K) ks (?out, ?d))) =
          (\<lambda>k'. case map_of d k' of
             None \<Rightarrow> None
           | Some r \<Rightarrow> Some (if k' \<in> set (k # ks) \<and> key r \<in> K then r\<lparr>comment := None\<rparr> else r))"
        using ih Some True nk unfolding mo by (auto simp: fun_eq_iff split: option.splits)
      show ?thesis
        unfolding f using c1 c2 c3 by blast
    qed
  qed
qed






lemma set_map_filter_conv:
  "set (List.map_filter f xs) = {y. \<exists>x \<in> set xs. f x = Some y}"
  by (induction xs) (auto split: option.splits)

lemma set_sorted_strings_from_dict:
  assumes "distinct (map fst d)"
  shows "set (sorted_strings_from_dict d) = snd ` set d"
proof -
  have "set (sorted_strings_from_dict d) = {v. \<exists>k \<in> set (map fst d). map_of d k = Some v}"
    by (auto simp: sorted_strings_from_dict_def sorted_keys_def set_map_filter_conv)
  also have "\<dots> = snd ` set d"
    using assms by (force simp: image_iff dest: map_of_SomeD)
  finally show ?thesis .
qed

lemma write_kept_fold:
  "fold (write_kept K) rs out =
     out @ concat (map (\<lambda>r. to_str r @ [CHR 0x0A, CHR 0x0A]) (filter (\<lambda>r. key r \<in> K) rs))"
  by (induction rs arbitrary: out) (simp_all add: write_kept_def)

lemma map_filter_map_option:
  "List.map_filter (\<lambda>k. map_option g (f k)) ks = map g (List.map_filter f ks)"
  by (induction ks) (simp_all split: option.splits)

lemma clear_pass:
  fixes K :: "string set" and out :: string and d :: strings_dict
  assumes "distinct (map fst d)"
  defines "d' \<equiv> snd (fold (write_cleared K) (sorted_keys d) (out, d))"
  shows "map fst d' = map fst d"
    and "map_of d' = (\<lambda>k. map_option (\<lambda>r. if key r \<in> K then r\<lparr>comment := None\<rparr> else r) (map_of d k))"
    and "sorted_strings_from_dict d' =
           map (\<lambda>r. if key r \<in> K then r\<lparr>comment := None\<rparr> else r) (sorted_strings_from_dict d)"
    and "fst (fold (write_cleared K) (sorted_keys d) (out, d)) =
           out @ concat (map (\<lambda>r. to_str (r\<lparr>comment := None\<rparr>) @ [CHR 0x0A, CHR 0x0A])
                          (filter (\<lambda>r. key r \<in> K) (sorted_strings_from_dict d)))"
proof -
  have dk: "distinct (sorted_keys d)"
    using assms(1) by (simp add: sorted_keys_def)
  note wf = write_cleared_fold [OF dk, of K out d]
  show keys: "map fst d' = map fst d"
    using wf by (simp add: d'_def)
  have "map_of d' k = map_option (\<lambda>r. if key r \<in> K then r\<lparr>comment := None\<rparr> else r) (map_of d k)" for k
  proof (cases "map_of d k")
    case None
    then show ?thesis using wf by (simp add: d'_def)
  next
    case (Some r)
    then have "k \<in> set (sorted_keys d)"
      by (metis map_of_eq_None_iff option.distinct(1) set_map set_sort sorted_keys_def)
    then show ?thesis using wf Some by (simp add: d'_def)
  qed
  then show lookup: "map_of d' = (\<lambda>k. map_option (\<lambda>r. if key r \<in> K then r\<lparr>comment := None\<rparr> else r) (map_of d k))"
    by (simp add: fun_eq_iff)
  show "sorted_strings_from_dict d' =
           map (\<lambda>r. if key r \<in> K then r\<lparr>comment := None\<rparr> else r) (sorted_strings_from_dict d)"
    unfolding sorted_strings_from_dict_def sorted_keys_def keys lookup
    by (rule map_filter_map_option)
  show "fst (fold (write_cleared K) (sorted_keys d) (out, d)) =
           out @ concat (map (\<lambda>r. to_str (r\<lparr>comment := None\<rparr>) @ [CHR 0x0A, CHR 0x0A])
                          (filter (\<lambda>r. key r \<in> K) (sorted_strings_from_dict d)))"
    using wf by (metis fst_conv sorted_strings_from_dict_def)
qed

lemma filter_key_map_clear:
  "filter (\<lambda>r. key r \<in> K) (map (\<lambda>r. if key r \<in> T then r\<lparr>comment := None\<rparr> else r) rs) =
   map (\<lambda>r. if key r \<in> T then r\<lparr>comment := None\<rparr> else r) (filter (\<lambda>r. key r \<in> K) rs)"
  by (induction rs) simp_all

lemma clear_after_clear:
  "(if c then r\<lparr>comment := None\<rparr> else r)\<lparr>comment := None\<rparr> = r\<lparr>comment := None\<rparr>"
  by simp

lemma categorize_step_result:
  "categorize_step E r (T, N, X) =
     (if (case comment r of None \<Rightarrow> True | Some c \<Rightarrow> is_ascii c)
      then Inr
        (T \<union> key ` {q \<in> {r}. (\<not> is_raw q \<or> key q \<in> E)
                 \<and> \<not> (case comment q of None \<Rightarrow> False | Some c \<Rightarrow> 0 \<le> find_str c ''extra'')},
         N \<union> key ` {q \<in> {r}. is_raw q \<and> key q \<notin> E},
         X \<union> key ` {q \<in> {r}. (\<not> is_raw q \<or> key q \<in> E)
                 \<and> (case comment q of None \<Rightarrow> False | Some c \<Rightarrow> 0 \<le> find_str c ''extra'')})
      else Inl UnicodeError)"
proof (cases "comment r")
  case None
  then show ?thesis
    by (auto simp: categorize_step_def Let_def)
next
  case (Some c)
  then show ?thesis
    by (auto simp: categorize_step_def Let_def)
qed

lemma categorize_loop_result:
  "categorize_loop E rs (T, N, X) =
     (if \<forall>r \<in> set rs. (case comment r of None \<Rightarrow> True | Some c \<Rightarrow> is_ascii c)
      then Inr
        (T \<union> key ` {q \<in> set rs. (\<not> is_raw q \<or> key q \<in> E)
                 \<and> \<not> (case comment q of None \<Rightarrow> False | Some c \<Rightarrow> 0 \<le> find_str c ''extra'')},
         N \<union> key ` {q \<in> set rs. is_raw q \<and> key q \<notin> E},
         X \<union> key ` {q \<in> set rs. (\<not> is_raw q \<or> key q \<in> E)
                 \<and> (case comment q of None \<Rightarrow> False | Some c \<Rightarrow> 0 \<le> find_str c ''extra'')})
      else Inl UnicodeError)"
proof (induction rs arbitrary: T N X)
  case Nil
  then show ?case by simp
next
  case (Cons r rs)
  show ?case
  proof (cases "case comment r of None \<Rightarrow> True | Some c \<Rightarrow> is_ascii c")
    case False
    then show ?thesis
      by (simp add: categorize_step_result)
  next
    case True
    have step: "categorize_loop E (r # rs) (T, N, X) =
              categorize_loop E rs
        (T \<union> key ` {q \<in> {r}. (\<not> is_raw q \<or> key q \<in> E)
                 \<and> \<not> (case comment q of None \<Rightarrow> False | Some c \<Rightarrow> 0 \<le> find_str c ''extra'')},
         N \<union> key ` {q \<in> {r}. is_raw q \<and> key q \<notin> E},
         X \<union> key ` {q \<in> {r}. (\<not> is_raw q \<or> key q \<in> E)
                 \<and> (case comment q of None \<Rightarrow> False | Some c \<Rightarrow> 0 \<le> find_str c ''extra'')})"
      using True by (simp only: categorize_loop.simps categorize_step_result if_True sum.case)
    show ?thesis
    proof (cases "\<forall>r \<in> set rs. (case comment r of None \<Rightarrow> True | Some c \<Rightarrow> is_ascii c)")
      case False
      then have nall: "\<not> (\<forall>q \<in> set (r # rs).
                          (case comment q of None \<Rightarrow> True | Some c \<Rightarrow> is_ascii c))"
        by simp
      note step
      also have "categorize_loop E rs
        (T \<union> key ` {q \<in> {r}. (\<not> is_raw q \<or> key q \<in> E)
                 \<and> \<not> (case comment q of None \<Rightarrow> False | Some c \<Rightarrow> 0 \<le> find_str c ''extra'')},
         N \<union> key ` {q \<in> {r}. is_raw q \<and> key q \<notin> E},
         X \<union> key ` {q \<in> {r}. (\<not> is_raw q \<or> key q \<in> E)
                 \<and> (case comment q of None \<Rightarrow> False | Some c \<Rightarrow> 0 \<le> find_str c ''extra'')})
         = Inl UnicodeError"
        using False by (simp only: Cons.IH if_False)
      finally show ?thesis
        using nall by (simp only: if_False)
    next
      case all: True
      then have all': "\<forall>q \<in> set (r # rs).
                          (case comment q of None \<Rightarrow> True | Some c \<Rightarrow> is_ascii c)"
        using True by simp
      have "categorize_loop E (r # rs) (T, N, X) =
        Inr (T \<union> key ` {q \<in> {r}. (\<not> is_raw q \<or> key q \<in> E)
                 \<and> \<not> (case comment q of None \<Rightarrow> False | Some c \<Rightarrow> 0 \<le> find_str c ''extra'')}
               \<union> key ` {q \<in> set rs. (\<not> is_raw q \<or> key q \<in> E)
                 \<and> \<not> (case comment q of None \<Rightarrow> False | Some c \<Rightarrow> 0 \<le> find_str c ''extra'')},
             N \<union> key ` {q \<in> {r}. is_raw q \<and> key q \<notin> E}
               \<union> key ` {q \<in> set rs. is_raw q \<and> key q \<notin> E},
             X \<union> key ` {q \<in> {r}. (\<not> is_raw q \<or> key q \<in> E)
                 \<and> (case comment q of None \<Rightarrow> False | Some c \<Rightarrow> 0 \<le> find_str c ''extra'')}
               \<union> key ` {q \<in> set rs. (\<not> is_raw q \<or> key q \<in> E)
                 \<and> (case comment q of None \<Rightarrow> False | Some c \<Rightarrow> 0 \<le> find_str c ''extra'')})"
        unfolding step Cons.IH all [THEN eqTrueI] by (simp only: if_True)
      also have "\<dots> =
        Inr (T \<union> key ` {q \<in> set (r # rs). (\<not> is_raw q \<or> key q \<in> E)
                 \<and> \<not> (case comment q of None \<Rightarrow> False | Some c \<Rightarrow> 0 \<le> find_str c ''extra'')},
             N \<union> key ` {q \<in> set (r # rs). is_raw q \<and> key q \<notin> E},
             X \<union> key ` {q \<in> set (r # rs). (\<not> is_raw q \<or> key q \<in> E)
                 \<and> (case comment q of None \<Rightarrow> False | Some c \<Rightarrow> 0 \<le> find_str c ''extra'')})"
        by (simp only: sum.inject prod.inject, intro conjI; auto)
      finally show ?thesis
        unfolding all' [THEN eqTrueI] by (simp only: if_True)
    qed
  qed
qed

lemma categorize_sets:
  assumes "distinct (map fst d)"
  shows "categorize d esc =
     (if \<forall>r \<in> snd ` set d. (case comment r of None \<Rightarrow> True | Some c \<Rightarrow> is_ascii c)
      then Inr
        (key ` {r \<in> snd ` set d. (\<not> is_raw r \<or> key r \<in> key ` set (sorted_strings_from_dict esc))
                \<and> \<not> (case comment r of None \<Rightarrow> False | Some c \<Rightarrow> 0 \<le> find_str c ''extra'')},
         key ` {r \<in> snd ` set d. is_raw r \<and> key r \<notin> key ` set (sorted_strings_from_dict esc)},
         key ` {r \<in> snd ` set d. (\<not> is_raw r \<or> key r \<in> key ` set (sorted_strings_from_dict esc))
                \<and> (case comment r of None \<Rightarrow> False | Some c \<Rightarrow> 0 \<le> find_str c ''extra'')})
      else Inl UnicodeError)"
  unfolding categorize_def Let_def categorize_loop_result set_sorted_strings_from_dict [OF assms]
  by simp

lemma alist_eqI:
  "distinct (map fst xs) \<Longrightarrow> map fst ys = map fst xs \<Longrightarrow>
   (\<And>k. map_of ys k = map_of xs k) \<Longrightarrow> ys = xs"
proof (induction xs arbitrary: ys)
  case Nil
  then show ?case by simp
next
  case (Cons x xs)
  obtain k v where x: "x = (k, v)" by (cases x)
  from Cons.prems(2) obtain y ys' where ys: "ys = y # ys'" by (cases ys) auto
  obtain k' v' where y: "y = (k', v')" by (cases y)
  from Cons.prems(2) have k: "k' = k" and keys: "map fst ys' = map fst xs"
    by (simp_all add: x y ys)
  from Cons.prems(3) [of k] have v: "v' = v"
    by (simp add: x y ys k)
  from Cons.prems(1) have nk: "k \<notin> set (map fst xs)" and dx: "distinct (map fst xs)"
    by (simp_all add: x)
  have "map_of ys' j = map_of xs j" for j
  proof (cases "j = k")
    case True
    have "map_of xs k = None"
      using nk by (simp add: map_of_eq_None_iff)
    moreover have "map_of ys' k = None"
      using nk keys by (metis map_of_eq_None_iff set_map)
    ultimately show ?thesis using True by simp
  next
    case False
    then show ?thesis using Cons.prems(3) [of j] by (simp add: x y ys k)
  qed
  with dx keys have "ys' = xs" by (rule Cons.IH)
  then show ?case by (simp add: x y ys k v)
qed

lemma strings_to_file_effect:
  assumes d: "distinct (map fst d)" and c: "categorize d esc = Inr (T, N, X)"
  shows "strings_to_file d esc = Inr
          (concat (map (\<lambda>r. to_str (r\<lparr>comment := None\<rparr>) @ [CHR 0x0A, CHR 0x0A])
                     (filter (\<lambda>r. key r \<in> T) (sorted_strings_from_dict d)))
           @ (if X \<noteq> {}
              then [CHR 0x0A] @ ''/*Extra*/'' @ [CHR 0x0A, CHR 0x0A, CHR 0x0A]
                   @ concat (map (\<lambda>r. to_str (if key r \<in> T then r\<lparr>comment := None\<rparr> else r)
                                        @ [CHR 0x0A, CHR 0x0A])
                               (filter (\<lambda>r. key r \<in> X) (sorted_strings_from_dict d)))
              else [])
           @ (if N \<noteq> {}
              then [CHR 0x0A] @ ''/*Not Translated*/'' @ [CHR 0x0A, CHR 0x0A, CHR 0x0A]
                   @ concat (map (\<lambda>r. to_str (r\<lparr>comment := None\<rparr>) @ [CHR 0x0A, CHR 0x0A])
                               (filter (\<lambda>r. key r \<in> N) (sorted_strings_from_dict d)))
              else []),
           map (\<lambda>(k, r). (k, if key r \<in> T \<union> N then r\<lparr>comment := None\<rparr> else r)) d)"
proof -
  let ?clearT = "\<lambda>r. if key r \<in> T then r\<lparr>comment := None\<rparr> else r"
  let ?hdrE = "[CHR 0x0A] @ ''/*Extra*/'' @ [CHR 0x0A] @ [CHR 0x0A] @ [CHR 0x0A]"
  let ?hdrN = "[CHR 0x0A] @ ''/*Not Translated*/'' @ [CHR 0x0A] @ [CHR 0x0A] @ [CHR 0x0A]"
  obtain out1 d1 where p1: "fold (write_cleared T) (sorted_keys d) ([], d) = (out1, d1)"
    by (cases "fold (write_cleared T) (sorted_keys d) ([], d)")
  have d1: "d1 = snd (fold (write_cleared T) (sorted_keys d) ([], d))"
    and o1: "out1 = fst (fold (write_cleared T) (sorted_keys d) ([], d))"
    by (simp_all add: p1)
  have k1: "map fst d1 = map fst d"
    unfolding d1 by (rule clear_pass(1) [OF d])
  have m1: "map_of d1 = (\<lambda>k. map_option ?clearT (map_of d k))"
    unfolding d1 by (rule clear_pass(2) [OF d])
  have s1: "sorted_strings_from_dict d1 = map ?clearT (sorted_strings_from_dict d)"
    unfolding d1 by (rule clear_pass(3) [OF d])
  have out1: "out1 = concat (map (\<lambda>r. to_str (r\<lparr>comment := None\<rparr>) @ [CHR 0x0A, CHR 0x0A])
                     (filter (\<lambda>r. key r \<in> T) (sorted_strings_from_dict d)))"
    unfolding o1 using clear_pass(4) [OF d, of T "[]"] by simp
  have dd1: "distinct (map fst d1)"
    using d k1 by simp
  define out2 where "out2 =
     (if X \<noteq> {} then fold (write_kept X) (sorted_strings_from_dict d1) (out1 @ ?hdrE) else out1)"
  have out2: "out2 = out1 @ (if X \<noteq> {}
              then ?hdrE @ concat (map (\<lambda>r. to_str (?clearT r) @ [CHR 0x0A, CHR 0x0A])
                               (filter (\<lambda>r. key r \<in> X) (sorted_strings_from_dict d)))
              else [])"
    unfolding out2_def s1 write_kept_fold filter_key_map_clear
    by (simp add: o_def)
  define res where "res =
     (if N \<noteq> {} then fold (write_cleared N) (sorted_keys d1) (out2 @ ?hdrN, d1) else (out2, d1))"
  have stf: "strings_to_file d esc = Inr res"
    by (simp add: strings_to_file_def c p1 out2_def res_def Let_def)
  have k2: "map fst (snd (fold (write_cleared N) (sorted_keys d1) (out2 @ ?hdrN, d1))) = map fst d1"
    by (rule clear_pass(1) [OF dd1])
  have m2: "map_of (snd (fold (write_cleared N) (sorted_keys d1) (out2 @ ?hdrN, d1))) =
      (\<lambda>k. map_option (\<lambda>r. if key r \<in> N then r\<lparr>comment := None\<rparr> else r) (map_of d1 k))"
    by (rule clear_pass(2) [OF dd1])
  have o2: "fst (fold (write_cleared N) (sorted_keys d1) (out2 @ ?hdrN, d1)) =
      (out2 @ ?hdrN) @ concat (map (\<lambda>r. to_str (r\<lparr>comment := None\<rparr>) @ [CHR 0x0A, CHR 0x0A])
                          (filter (\<lambda>r. key r \<in> N) (sorted_strings_from_dict d1)))"
    by (rule clear_pass(4) [OF dd1])
  have o2': "concat (map (\<lambda>r. to_str (r\<lparr>comment := None\<rparr>) @ [CHR 0x0A, CHR 0x0A])
                          (filter (\<lambda>r. key r \<in> N) (sorted_strings_from_dict d1)))
           = concat (map (\<lambda>r. to_str (r\<lparr>comment := None\<rparr>) @ [CHR 0x0A, CHR 0x0A])
                          (filter (\<lambda>r. key r \<in> N) (sorted_strings_from_dict d)))"
    unfolding s1 filter_key_map_clear
    by (simp add: o_def clear_after_clear)
  have keys: "map fst (snd res) = map fst d"
    unfolding res_def using k1 k2 by simp
  have lookup: "map_of (snd res) k =
           map_option (\<lambda>r. if key r \<in> T \<union> N then r\<lparr>comment := None\<rparr> else r) (map_of d k)"
    for k
  proof (cases "map_of d k")
    case None
    then show ?thesis unfolding res_def using m1 m2 by simp
  next
    case (Some r)
    then show ?thesis unfolding res_def using m1 m2 by simp
  qed
  have "snd res = map (\<lambda>(k, r). (k, if key r \<in> T \<union> N then r\<lparr>comment := None\<rparr> else r)) d"
  proof (rule alist_eqI)
    show "distinct (map fst (map (\<lambda>(k, r). (k, if key r \<in> T \<union> N then r\<lparr>comment := None\<rparr> else r)) d))"
      using d by (simp add: o_def case_prod_unfold)
    show "map fst (snd res) =
            map fst (map (\<lambda>(k, r). (k, if key r \<in> T \<union> N then r\<lparr>comment := None\<rparr> else r)) d)"
      unfolding keys by (simp add: o_def case_prod_unfold)
    show "map_of (snd res) k =
            map_of (map (\<lambda>(k, r). (k, if key r \<in> T \<union> N then r\<lparr>comment := None\<rparr> else r)) d) k"
      for k
      unfolding lookup by (simp add: map_of_map)
  qed
  moreover have "fst res =
           concat (map (\<lambda>r. to_str (r\<lparr>comment := None\<rparr>) @ [CHR 0x0A, CHR 0x0A])
                     (filter (\<lambda>r. key r \<in> T) (sorted_strings_from_dict d)))
           @ (if X \<noteq> {}
              then [CHR 0x0A] @ ''/*Extra*/'' @ [CHR 0x0A, CHR 0x0A, CHR 0x0A]
                   @ concat (map (\<lambda>r. to_str (if key r \<in> T then r\<lparr>comment := None\<rparr> else r)
                                        @ [CHR 0x0A, CHR 0x0A])
                               (filter (\<lambda>r. key r \<in> X) (sorted_strings_from_dict d)))
              else [])
           @ (if N \<noteq> {}
              then [CHR 0x0A] @ ''/*Not Translated*/'' @ [CHR 0x0A, CHR 0x0A, CHR 0x0A]
                   @ concat (map (\<lambda>r. to_str (r\<lparr>comment := None\<rparr>) @ [CHR 0x0A, CHR 0x0A])
                               (filter (\<lambda>r. key r \<in> N) (sorted_strings_from_dict d)))
              else [])"
    unfolding res_def using o2 o2' out2 out1 by simp
  ultimately show ?thesis
    unfolding stf by (simp only: sum.inject prod_eq_iff fst_conv snd_conv simp_thms)
qed

lemma categorize_covers:
  assumes "distinct (map fst d)" and "categorize d esc = Inr (T, N, X)" and "(k, r) \<in> set d"
  shows "key r \<in> T \<union> N \<union> X"
proof -
  have r: "r \<in> snd ` set d"
    using assms(3) by force
  have "categorize d esc \<noteq> Inl UnicodeError"
    using assms(2) by simp
  then have "(T, N, X) =
        (key ` {r \<in> snd ` set d. (\<not> is_raw r \<or> key r \<in> key ` set (sorted_strings_from_dict esc))
                \<and> \<not> (case comment r of None \<Rightarrow> False | Some c \<Rightarrow> 0 \<le> find_str c ''extra'')},
         key ` {r \<in> snd ` set d. is_raw r \<and> key r \<notin> key ` set (sorted_strings_from_dict esc)},
         key ` {r \<in> snd ` set d. (\<not> is_raw r \<or> key r \<in> key ` set (sorted_strings_from_dict esc))
                \<and> (case comment r of None \<Rightarrow> False | Some c \<Rightarrow> 0 \<le> find_str c ''extra'')})"
    using assms(2) unfolding categorize_sets [OF assms(1)] by (simp split: if_splits)
  then show ?thesis
    using r by (simp only: prod.inject) blast
qed








lemma categorize_returns:
  assumes "distinct (map fst d)"
    and "\<forall>r \<in> snd ` set d. (case comment r of None \<Rightarrow> True | Some c \<Rightarrow> is_ascii c)"
  shows "\<exists>T N X. categorize d esc = Inr (T, N, X)"
  unfolding categorize_sets [OF assms(1)] using assms(2) by simp

lemma strings_to_file_raises:
  "categorize d esc = Inl e \<Longrightarrow> strings_to_file d esc = Inl e"
  by (simp add: strings_to_file_def)

lemma strings_to_file_non_ascii_comment:
  "strings_to_file [(''a'', \<lparr>key = ''a'', val = Some ''A'', comment = Some [CHR 0xE9]\<rparr>)] []
     = Inl UnicodeError"
  by code_simp

text \<open>
  C10. \<open>strings_to_file\<close> changes the dictionary it is given. When the first loop has
  put the keys into the three sets, the function returns, and the dictionary afterwards
  is the one it was given with the comment taken off every record whose key is in
  \<open>trans_keys\<close> or \<open>not_keys\<close> and every other record as it was; the key of every
  record is in one of the three sets, so a record that keeps its comment is one of
  \<open>extra_keys\<close>. The text written is the records of \<open>trans_keys\<close>, then under their
  headers those of \<open>extra_keys\<close> and those of \<open>not_keys\<close>, each in the order of the
  sorted keys; the records of \<open>trans_keys\<close> and \<open>not_keys\<close> are rendered after their
  comment is cleared.
\<close>

theorem strings_to_file_clears_comments:
  assumes "distinct (map fst localized_strings)"
    and "categorize localized_strings escape_strings = Inr (trans_keys, not_keys, extra_keys)"
  shows "strings_to_file localized_strings escape_strings = Inr
          (concat (map (\<lambda>r. to_str (r\<lparr>comment := None\<rparr>) @ [CHR 0x0A, CHR 0x0A])
                     (filter (\<lambda>r. key r \<in> trans_keys)
                        (sorted_strings_from_dict localized_strings)))
           @ (if extra_keys \<noteq> {}
              then [CHR 0x0A] @ ''/*Extra*/'' @ [CHR 0x0A, CHR 0x0A, CHR 0x0A]
                   @ concat (map (\<lambda>r. to_str (if key r \<in> trans_keys
                                                then r\<lparr>comment := None\<rparr> else r)
                                        @ [CHR 0x0A, CHR 0x0A])
                               (filter (\<lambda>r. key r \<in> extra_keys)
                                  (sorted_strings_from_dict localized_strings)))
              else [])
           @ (if not_keys \<noteq> {}
              then [CHR 0x0A] @ ''/*Not Translated*/'' @ [CHR 0x0A, CHR 0x0A, CHR 0x0A]
                   @ concat (map (\<lambda>r. to_str (r\<lparr>comment := None\<rparr>) @ [CHR 0x0A, CHR 0x0A])
                               (filter (\<lambda>r. key r \<in> not_keys)
                                  (sorted_strings_from_dict localized_strings)))
              else []),
           map (\<lambda>(k, r). (k, if key r \<in> trans_keys \<union> not_keys
                               then r\<lparr>comment := None\<rparr> else r))
             localized_strings) \<and>
         (\<forall>(k, r) \<in> set localized_strings. key r \<in> trans_keys \<union> not_keys \<union> extra_keys)"
proof
  show "strings_to_file localized_strings escape_strings = Inr
          (concat (map (\<lambda>r. to_str (r\<lparr>comment := None\<rparr>) @ [CHR 0x0A, CHR 0x0A])
                     (filter (\<lambda>r. key r \<in> trans_keys)
                        (sorted_strings_from_dict localized_strings)))
           @ (if extra_keys \<noteq> {}
              then [CHR 0x0A] @ ''/*Extra*/'' @ [CHR 0x0A, CHR 0x0A, CHR 0x0A]
                   @ concat (map (\<lambda>r. to_str (if key r \<in> trans_keys
                                                then r\<lparr>comment := None\<rparr> else r)
                                        @ [CHR 0x0A, CHR 0x0A])
                               (filter (\<lambda>r. key r \<in> extra_keys)
                                  (sorted_strings_from_dict localized_strings)))
              else [])
           @ (if not_keys \<noteq> {}
              then [CHR 0x0A] @ ''/*Not Translated*/'' @ [CHR 0x0A, CHR 0x0A, CHR 0x0A]
                   @ concat (map (\<lambda>r. to_str (r\<lparr>comment := None\<rparr>) @ [CHR 0x0A, CHR 0x0A])
                               (filter (\<lambda>r. key r \<in> not_keys)
                                  (sorted_strings_from_dict localized_strings)))
              else []),
           map (\<lambda>(k, r). (k, if key r \<in> trans_keys \<union> not_keys
                               then r\<lparr>comment := None\<rparr> else r))
             localized_strings)"
    using assms by (rule strings_to_file_effect)
next
  show "\<forall>(k, r) \<in> set localized_strings. key r \<in> trans_keys \<union> not_keys \<union> extra_keys"
    using categorize_covers [OF assms] by blast
qed

theorem strings_to_file_clears_comments_witness:
  \<open>distinct (map fst
     [(''b'', \<lparr>key = ''b'', val = Some ''B'', comment = Some ''an extra x''\<rparr>),
      (''a'', \<lparr>key = ''a'', val = Some ''a'', comment = Some ''note''\<rparr>),
      (''c'', \<lparr>key = ''c'', val = Some ''C'', comment = Some ''cc''\<rparr>)]) \<and>
   categorize
     [(''b'', \<lparr>key = ''b'', val = Some ''B'', comment = Some ''an extra x''\<rparr>),
      (''a'', \<lparr>key = ''a'', val = Some ''a'', comment = Some ''note''\<rparr>),
      (''c'', \<lparr>key = ''c'', val = Some ''C'', comment = Some ''cc''\<rparr>)] []
     = Inr ({''c''}, {''a''}, {''b''}) \<and>
   strings_to_file
     [(''b'', \<lparr>key = ''b'', val = Some ''B'', comment = Some ''an extra x''\<rparr>),
      (''a'', \<lparr>key = ''a'', val = Some ''a'', comment = Some ''note''\<rparr>),
      (''c'', \<lparr>key = ''c'', val = Some ''C'', comment = Some ''cc''\<rparr>)] []
     = Inr (''"c" = "C";'' @ [CHR 0x0A, CHR 0x0A]
            @ [CHR 0x0A] @ ''/*Extra*/'' @ [CHR 0x0A, CHR 0x0A, CHR 0x0A]
            @ ''"b" = "B"; /* an extra x */'' @ [CHR 0x0A, CHR 0x0A]
            @ [CHR 0x0A] @ ''/*Not Translated*/'' @ [CHR 0x0A, CHR 0x0A, CHR 0x0A]
            @ ''"a" = "a";'' @ [CHR 0x0A, CHR 0x0A],
            [(''b'', \<lparr>key = ''b'', val = Some ''B'', comment = Some ''an extra x''\<rparr>),
             (''a'', \<lparr>key = ''a'', val = Some ''a'', comment = None\<rparr>),
             (''c'', \<lparr>key = ''c'', val = Some ''C'', comment = None\<rparr>)])\<close>
proof -
  let ?d = "[(''b'', \<lparr>key = ''b'', val = Some ''B'', comment = Some ''an extra x''\<rparr>),
      (''a'', \<lparr>key = ''a'', val = Some ''a'', comment = Some ''note''\<rparr>),
      (''c'', \<lparr>key = ''c'', val = Some ''C'', comment = Some ''cc''\<rparr>)]"
  have h1: "distinct (map fst ?d)" by simp
  have h2: "categorize ?d [] = Inr ({''c''}, {''a''}, {''b''})" by code_simp
  have s: "sorted_strings_from_dict ?d =
     [\<lparr>key = ''a'', val = Some ''a'', comment = Some ''note''\<rparr>,
      \<lparr>key = ''b'', val = Some ''B'', comment = Some ''an extra x''\<rparr>,
      \<lparr>key = ''c'', val = Some ''C'', comment = Some ''cc''\<rparr>]"
    by code_simp
  show ?thesis
    using h1 h2 strings_to_file_clears_comments [OF h1 h2]
    by (simp add: s to_str_def)
qed




section \<open>Properties of rendering and parsing a record\<close>




















end
